theory Spec2Isabelle
  imports Complex_Main
begin

section \<open>Numbers of the Python program\<close>

text \<open>
  The program is \<^verbatim>\<open>power-calculator-2.py\<close>. Its integers are Python's unbounded
  integers (\<^typ>\<open>int\<close>). Its floating-point numbers are idealised: a finite float is an
  exact \<^typ>\<open>real\<close> (rounding error and overflow of binary64 are not modelled, and a zero
  is the positive zero), and the three non-finite values that numpy arithmetic produces
  instead of raising are kept as constructors, because \<^verbatim>\<open>round\<close> raises on them.
\<close>

datatype pyfloat = Fin real | PInf | NInf | NaN

datatype py_error = ZeroDivisionError | ValueError | OverflowError | KeyError

fun pf_neg :: "pyfloat \<Rightarrow> pyfloat" where
  "pf_neg (Fin a) = Fin (- a)"
| "pf_neg PInf = NInf"
| "pf_neg NInf = PInf"
| "pf_neg NaN = NaN"

fun pf_add :: "pyfloat \<Rightarrow> pyfloat \<Rightarrow> pyfloat" where
  "pf_add (Fin a) (Fin b) = Fin (a + b)"
| "pf_add NaN y = NaN"
| "pf_add x NaN = NaN"
| "pf_add PInf NInf = NaN"
| "pf_add NInf PInf = NaN"
| "pf_add PInf y = PInf"
| "pf_add x PInf = PInf"
| "pf_add NInf y = NInf"
| "pf_add x NInf = NInf"

definition pf_sub :: "pyfloat \<Rightarrow> pyfloat \<Rightarrow> pyfloat" where
  "pf_sub x y = pf_add x (pf_neg y)"

fun pf_mul :: "pyfloat \<Rightarrow> pyfloat \<Rightarrow> pyfloat" where
  "pf_mul (Fin a) (Fin b) = Fin (a * b)"
| "pf_mul NaN y = NaN"
| "pf_mul x NaN = NaN"
| "pf_mul (Fin a) PInf = (if a = 0 then NaN else if 0 < a then PInf else NInf)"
| "pf_mul (Fin a) NInf = (if a = 0 then NaN else if 0 < a then NInf else PInf)"
| "pf_mul PInf (Fin b) = (if b = 0 then NaN else if 0 < b then PInf else NInf)"
| "pf_mul NInf (Fin b) = (if b = 0 then NaN else if 0 < b then NInf else PInf)"
| "pf_mul PInf PInf = PInf"
| "pf_mul NInf NInf = PInf"
| "pf_mul PInf NInf = NInf"
| "pf_mul NInf PInf = NInf"

text \<open>
  Division of a numpy float: a zero divisor gives an infinity or NaN (with a warning),
  never an exception.
\<close>

fun pf_div :: "pyfloat \<Rightarrow> pyfloat \<Rightarrow> pyfloat" where
  "pf_div (Fin a) (Fin b) =
     (if b \<noteq> 0 then Fin (a / b) else if a = 0 then NaN else if 0 < a then PInf else NInf)"
| "pf_div NaN y = NaN"
| "pf_div x NaN = NaN"
| "pf_div (Fin a) PInf = Fin 0"
| "pf_div (Fin a) NInf = Fin 0"
| "pf_div PInf (Fin b) = (if 0 \<le> b then PInf else NInf)"
| "pf_div NInf (Fin b) = (if 0 \<le> b then NInf else PInf)"
| "pf_div PInf PInf = NaN"
| "pf_div PInf NInf = NaN"
| "pf_div NInf PInf = NaN"
| "pf_div NInf NInf = NaN"

text \<open>The order that \<^verbatim>\<open>idxmin\<close> uses; NaN compares false with everything.\<close>

fun pf_less :: "pyfloat \<Rightarrow> pyfloat \<Rightarrow> bool" where
  "pf_less (Fin a) (Fin b) = (a < b)"
| "pf_less NaN y = False"
| "pf_less x NaN = False"
| "pf_less x NInf = False"
| "pf_less NInf y = True"
| "pf_less PInf y = False"
| "pf_less x PInf = True"

text \<open>\<^verbatim>\<open>int(x)\<close> on a finite float truncates towards zero.\<close>

definition py_int :: "real \<Rightarrow> int" where
  "py_int x = (if 0 \<le> x then \<lfloor>x\<rfloor> else \<lceil>x\<rceil>)"

text \<open>
  \<^verbatim>\<open>round(x)\<close> with one argument rounds half to even and returns an integer; it raises
  \<^verbatim>\<open>ValueError\<close> on NaN and \<^verbatim>\<open>OverflowError\<close> on an infinity.
\<close>

definition round_half_even :: "real \<Rightarrow> int" where
  "round_half_even x =
     (let f = \<lfloor>x\<rfloor> in
      if x - of_int f < 1 / 2 then f
      else if 1 / 2 < x - of_int f then f + 1
      else if even f then f else f + 1)"

fun py_round :: "pyfloat \<Rightarrow> py_error + int" where
  "py_round (Fin x) = Inr (round_half_even x)"
| "py_round NaN = Inl ValueError"
| "py_round PInf = Inl OverflowError"
| "py_round NInf = Inl OverflowError"

text \<open>\<^verbatim>\<open>math.sqrt\<close> raises \<^verbatim>\<open>ValueError\<close> on a negative argument.\<close>

definition math_sqrt :: "real \<Rightarrow> py_error + real" where
  "math_sqrt x = (if x < 0 then Inl ValueError else Inr (sqrt x))"

subsection \<open>The standard normal distribution\<close>

text \<open>
  \<^verbatim>\<open>scipy.stats.norm\<close> is not code of the repository. Its \<^verbatim>\<open>cdf\<close> is modelled by the
  distribution function itself: \<open>gauss_int x\<close> is the integral of \<open>exp (- t\<^sup>2 / 2)\<close> from
  \<open>0\<close> to \<open>x\<close>, given by its power series, \<open>gauss_half_mass\<close> is that integral over the
  whole half line, and the distribution function is the mass below \<open>x\<close> divided by the
  total mass. Its \<^verbatim>\<open>ppf\<close> is the inverse of the distribution function.
\<close>

definition gauss_coeff :: "nat \<Rightarrow> real" where
  "gauss_coeff n =
     (if even n then 0
      else (- 1) ^ ((n - 1) div 2) / (2 ^ ((n - 1) div 2) * fact ((n - 1) div 2) * real n))"

definition gauss_int :: "real \<Rightarrow> real" where
  "gauss_int x = (\<Sum>n. gauss_coeff n * x ^ n)"

definition gauss_half_mass :: real where
  "gauss_half_mass = (SUP x. gauss_int x)"

definition std_normal_cdf :: "real \<Rightarrow> real" where
  "std_normal_cdf x = 1 / 2 + gauss_int x / (2 * gauss_half_mass)"

definition std_normal_quantile :: "real \<Rightarrow> real" where
  "std_normal_quantile p = the_inv std_normal_cdf p"

text \<open>\<^verbatim>\<open>stats.norm.cdf\<close> on a numpy float.\<close>

fun norm_cdf :: "pyfloat \<Rightarrow> pyfloat" where
  "norm_cdf (Fin x) = Fin (std_normal_cdf x)"
| "norm_cdf PInf = Fin 1"
| "norm_cdf NInf = Fin 0"
| "norm_cdf NaN = NaN"

text \<open>
  \<^verbatim>\<open>stats.norm.ppf\<close> on a finite Python float: NaN outside \<open>[0, 1]\<close>, the infinities at
  the two ends, the quantile inside.
\<close>

definition norm_ppf :: "real \<Rightarrow> pyfloat" where
  "norm_ppf p =
     (if p < 0 \<or> 1 < p then NaN
      else if p = 0 then NInf
      else if p = 1 then PInf
      else Fin (std_normal_quantile p))"

section \<open>The formula engine\<close>

text \<open>
  Each function returns a triple, as the Python function does, or the exception it
  raises. \<^verbatim>\<open>n_total\<close> is an integer, the other arguments are finite floats. The
  Python variable \<^verbatim>\<open>power\<close> is written \<open>pwr\<close>. The integers \<open>0\<close> and \<open>1\<close> that the
  guards return in the place of a float are the floats of the same value.
\<close>

definition calculate_power ::
  "int \<Rightarrow> real \<Rightarrow> real \<Rightarrow> real \<Rightarrow> py_error + (pyfloat \<times> int \<times> int)" where
  "calculate_power n_total treatment_pct mde alpha =
     (let n1 = py_int (of_int n_total * treatment_pct / 100);
          n2 = n_total - n1
      in if n1 = 0 \<or> n2 = 0 then Inr (Fin 0, n1, n2)
         else
           let p_pooled = 1 / 2 in
           case math_sqrt (p_pooled * (1 - p_pooled) * (1 / of_int n1 + 1 / of_int n2)) of
             Inl e \<Rightarrow> Inl e
           | Inr se \<Rightarrow>
               let z_alpha = norm_ppf (1 - alpha / 2) in
               if se = 0 then Inl ZeroDivisionError
               else
                 let pwr =
                   pf_add (pf_sub (Fin 1) (norm_cdf (pf_sub z_alpha (Fin (mde / se)))))
                     (norm_cdf (pf_sub (pf_neg z_alpha) (Fin (mde / se))))
                 in Inr (pwr, n1, n2))"

definition calculate_mde ::
  "int \<Rightarrow> real \<Rightarrow> real \<Rightarrow> real \<Rightarrow> py_error + (pyfloat \<times> int \<times> int)" where
  "calculate_mde n_total treatment_pct pwr alpha =
     (let n1 = py_int (of_int n_total * treatment_pct / 100);
          n2 = n_total - n1
      in if n1 = 0 \<or> n2 = 0 then Inr (Fin 1, n1, n2)
         else
           let p_pooled = 1 / 2 in
           case math_sqrt (p_pooled * (1 - p_pooled) * (1 / of_int n1 + 1 / of_int n2)) of
             Inl e \<Rightarrow> Inl e
           | Inr se \<Rightarrow>
               let z_alpha = norm_ppf (1 - alpha / 2);
                   z_beta = norm_ppf pwr;
                   mde = pf_mul (pf_add z_alpha z_beta) (Fin se)
               in Inr (mde, n1, n2))"

definition calculate_sample_size ::
  "real \<Rightarrow> real \<Rightarrow> real \<Rightarrow> real \<Rightarrow> py_error + (int \<times> int \<times> int)" where
  "calculate_sample_size mde pwr treatment_pct alpha =
     (let z_alpha = norm_ppf (1 - alpha / 2);
          z_beta = norm_ppf pwr;
          p_pooled = 1 / 2;
          treatment_prop = treatment_pct / 100;
          term1 = pf_mul (pf_add z_alpha z_beta) (pf_add z_alpha z_beta);
          term2 = p_pooled * (1 - p_pooled)
      in if treatment_prop * (1 - treatment_prop) = 0 then Inl ZeroDivisionError
         else
           let term3 = 1 / (treatment_prop * (1 - treatment_prop));
               n_total = pf_div (pf_mul (pf_mul term1 (Fin term2)) (Fin term3)) (Fin (mde\<^sup>2))
           in case py_round (pf_mul n_total (Fin treatment_prop)) of
                Inl e \<Rightarrow> Inl e
              | Inr n1 \<Rightarrow>
                  (case py_round (pf_mul n_total (Fin (1 - treatment_prop))) of
                     Inl e \<Rightarrow> Inl e
                   | Inr n2 \<Rightarrow> Inr (n1 + n2, n1, n2)))"

section \<open>The sweep engine\<close>

text \<open>\<^verbatim>\<open>range(start, stop, step)\<close> for a positive step.\<close>

function py_range :: "int \<Rightarrow> int \<Rightarrow> int \<Rightarrow> int list" where
  "py_range start stop step =
     (if 0 < step \<and> start < stop then start # py_range (start + step) stop step else [])"
  by pat_completeness auto
termination
  by (relation "measure (\<lambda>(start, stop, step). nat (stop - start))") auto

declare py_range.simps [simp del]

text \<open>
  The dictionary \<^verbatim>\<open>fixed_params\<close>: a key that is absent is \<open>None\<close>, and reading it raises
  \<^verbatim>\<open>KeyError\<close>. The rows of the data frame carry the keys of the branch that made them.
\<close>

record fixed_params =
  fp_n_total :: "int option"
  fp_mde :: "real option"
  fp_power :: "real option"
  fp_alpha :: "real option"

datatype row =
  SampleSizeRow (treatment_pct: int) (sample_size: int) (treatment_size: int) (control_size: int)
| MdeRow (treatment_pct: int) (mde_pp: pyfloat) (treatment_size: int) (control_size: int)

definition lookup :: "'a option \<Rightarrow> py_error + 'a" where
  "lookup v = (case v of None \<Rightarrow> Inl KeyError | Some x \<Rightarrow> Inr x)"

fun sweep_sample_size :: "real \<Rightarrow> real \<Rightarrow> real \<Rightarrow> int list \<Rightarrow> py_error + row list" where
  "sweep_sample_size mde pwr alpha [] = Inr []"
| "sweep_sample_size mde pwr alpha (tp # tps) =
     (case calculate_sample_size (mde / 100) pwr (of_int tp) alpha of
        Inl e \<Rightarrow> Inl e
      | Inr (n_total, n1, n2) \<Rightarrow>
          (case sweep_sample_size mde pwr alpha tps of
             Inl e \<Rightarrow> Inl e
           | Inr results \<Rightarrow> Inr (SampleSizeRow tp n_total n1 n2 # results)))"

fun sweep_mde :: "int \<Rightarrow> real \<Rightarrow> real \<Rightarrow> int list \<Rightarrow> py_error + row list" where
  "sweep_mde n_total pwr alpha [] = Inr []"
| "sweep_mde n_total pwr alpha (tp # tps) =
     (case calculate_mde n_total (of_int tp) pwr alpha of
        Inl e \<Rightarrow> Inl e
      | Inr (mde, n1, n2) \<Rightarrow>
          (case sweep_mde n_total pwr alpha tps of
             Inl e \<Rightarrow> Inl e
           | Inr results \<Rightarrow> Inr (MdeRow tp (pf_mul mde (Fin 100)) n1 n2 # results)))"

definition generate_treatment_comparison_data ::
  "string \<Rightarrow> fixed_params \<Rightarrow> py_error + row list" where
  "generate_treatment_comparison_data calculation_type params =
     (let treatment_percentages = py_range 5 96 5 in
      if calculation_type = ''Sample Size'' then
        (case lookup (fp_mde params) of
           Inl e \<Rightarrow> Inl e
         | Inr mde \<Rightarrow>
             (case lookup (fp_power params) of
                Inl e \<Rightarrow> Inl e
              | Inr pwr \<Rightarrow>
                  (case lookup (fp_alpha params) of
                     Inl e \<Rightarrow> Inl e
                   | Inr alpha \<Rightarrow> sweep_sample_size mde pwr alpha treatment_percentages)))
      else if calculation_type = ''MDE'' then
        (case lookup (fp_n_total params) of
           Inl e \<Rightarrow> Inl e
         | Inr n_total \<Rightarrow>
             (case lookup (fp_power params) of
                Inl e \<Rightarrow> Inl e
              | Inr pwr \<Rightarrow>
                  (case lookup (fp_alpha params) of
                     Inl e \<Rightarrow> Inl e
                   | Inr alpha \<Rightarrow> sweep_mde n_total pwr alpha treatment_percentages)))
      else Inr [])"

text \<open>
  The optimal point, as \<^verbatim>\<open>main\<close> reads it from the data frame of the MDE sweep:
  \<^verbatim>\<open>idxmin\<close> is the position of the first smallest value, NaN skipped, and the treatment
  percentage is read at that position. A column with no value to compare has no minimum.
\<close>

fun idxmin_from :: "nat \<Rightarrow> (nat \<times> pyfloat) option \<Rightarrow> pyfloat list \<Rightarrow> (nat \<times> pyfloat) option" where
  "idxmin_from i best [] = best"
| "idxmin_from i best (x # xs) =
     idxmin_from (Suc i)
       (if x = NaN then best
        else case best of
               None \<Rightarrow> Some (i, x)
             | Some (j, y) \<Rightarrow> if pf_less x y then Some (i, x) else best)
       xs"

definition idxmin :: "pyfloat list \<Rightarrow> py_error + nat" where
  "idxmin xs = (case idxmin_from 0 None xs of None \<Rightarrow> Inl ValueError | Some (i, x) \<Rightarrow> Inr i)"

definition opt_treatment :: "row list \<Rightarrow> py_error + int" where
  "opt_treatment comparison_data =
     (case idxmin (map mde_pp comparison_data) of
        Inl e \<Rightarrow> Inl e
      | Inr min_idx \<Rightarrow> Inr (treatment_pct (comparison_data ! min_idx)))"

section \<open>The closed form of the specification\<close>

text \<open>
  The raw total of the sample-size formula as the specification writes it, from the two
  critical values, the allocation fraction and the effect size.
\<close>

definition spec_n_total_raw :: "real \<Rightarrow> real \<Rightarrow> real \<Rightarrow> real \<Rightarrow> real" where
  "spec_n_total_raw z_alpha z_beta fraction mde =
     (z_alpha + z_beta)\<^sup>2 * (1 / 4) / (fraction * (1 - fraction)) / mde\<^sup>2"

section \<open>Notions used in the statements\<close>

text \<open>
  The value the power formula takes at the critical value \<open>z\<close> and the standardised effect
  \<open>t = mde / se\<close>, and the standard error of two groups, both as the code computes them on
  finite values.
\<close>

definition power_curve :: "real \<Rightarrow> real \<Rightarrow> real" where
  "power_curve z t = 1 - std_normal_cdf (z - t) + std_normal_cdf (- z - t)"

definition std_error :: "int \<Rightarrow> int \<Rightarrow> real" where
  "std_error n1 n2 = sqrt (1 / 2 * (1 - 1 / 2) * (1 / of_int n1 + 1 / of_int n2))"


text \<open>A float that \<^verbatim>\<open>round\<close> accepts.\<close>

fun pf_finite :: "pyfloat \<Rightarrow> bool" where
  "pf_finite (Fin a) = True"
| "pf_finite PInf = False"
| "pf_finite NInf = False"
| "pf_finite NaN = False"

section \<open>The standard normal distribution function\<close>

text \<open>
  The series of \<open>gauss_int\<close> converges everywhere and its derivative is the density
  \<open>exp (- x\<^sup>2 / 2)\<close>.
\<close>

lemma gauss_odd_term_norm:
  fixes x :: real
  shows "norm ((- 1) ^ k / (2 ^ k * fact k * real (2 * k + 1)) * x ^ (2 * k + 1))
      = \<bar>x\<bar> * ((x\<^sup>2 / 2) ^ k / fact k) / real (2 * k + 1)"
proof -
  have a: "\<bar>x ^ (2 * k + 1)\<bar> = \<bar>x\<bar> * (x\<^sup>2) ^ k"
    by (simp add: power_mult abs_mult power_abs)
  have b: "\<bar>(- 1) ^ k / (2 ^ k * fact k * real (2 * k + 1))\<bar>
      = 1 / (2 ^ k * fact k * real (2 * k + 1))"
    by (simp add: power_abs abs_mult)
  show ?thesis
    unfolding real_norm_def abs_mult a b by (simp add: power_divide)
qed

lemma gauss_odd_summable:
  fixes x :: real
  shows "summable (\<lambda>k. (- 1) ^ k / (2 ^ k * fact k * real (2 * k + 1)) * x ^ (2 * k + 1))"
proof (rule summable_comparison_test')
  show "summable (\<lambda>k. \<bar>x\<bar> * ((x\<^sup>2 / 2) ^ k /\<^sub>R fact k))"
    by (intro summable_mult sums_summable [OF exp_converges])
next
  fix k :: nat
  have "\<bar>x\<bar> * ((x\<^sup>2 / 2) ^ k / fact k) / real (2 * k + 1)
      \<le> \<bar>x\<bar> * ((x\<^sup>2 / 2) ^ k / fact k) / 1"
    by (intro divide_left_mono mult_nonneg_nonneg divide_nonneg_nonneg) simp_all
  then show "norm ((- 1) ^ k / (2 ^ k * fact k * real (2 * k + 1)) * x ^ (2 * k + 1))
      \<le> \<bar>x\<bar> * ((x\<^sup>2 / 2) ^ k /\<^sub>R fact k)"
    unfolding gauss_odd_term_norm by (simp add: inverse_eq_divide)
qed

lemma odd_half_double: "odd n \<Longrightarrow> 2 * ((n - 1) div 2) + 1 = (n::nat)"
  by (auto elim: oddE)

lemma gauss_coeff_term:
  "gauss_coeff n * x ^ n =
     (if even n then 0
      else (\<lambda>k. (- 1) ^ k / (2 ^ k * fact k * real (2 * k + 1)) * x ^ (2 * k + 1))
             ((n - 1) div 2))"
  by (simp add: gauss_coeff_def odd_half_double)

lemma gauss_int_summable: "summable (\<lambda>n. gauss_coeff n * x ^ n)"
  unfolding gauss_coeff_term
  by (rule sums_summable [OF sums_if' [OF summable_sums [OF gauss_odd_summable]]])

lemma diffs_gauss_coeff:
  "diffs gauss_coeff n =
     (if even n then (- 1) ^ (n div 2) / (2 ^ (n div 2) * fact (n div 2)) else 0)"
  by (simp add: diffs_def gauss_coeff_def)

lemma gauss_even_term:
  fixes x :: real
  shows "(- (x\<^sup>2 / 2)) ^ k /\<^sub>R fact k = (- 1) ^ k / (2 ^ k * fact k) * x ^ (2 * k)"
proof -
  have "(- (x\<^sup>2 / 2)) ^ k = (- 1) ^ k * ((x\<^sup>2) ^ k / 2 ^ k)"
    by (subst power_minus) (simp add: power_divide)
  then show ?thesis
    by (simp add: power_mult inverse_eq_divide)
qed

lemma gauss_deriv_sums: "(\<lambda>n. diffs gauss_coeff n * x ^ n) sums exp (- (x\<^sup>2 / 2))"
proof -
  have h: "(\<lambda>k. (- (x\<^sup>2 / 2)) ^ k /\<^sub>R fact k) sums exp (- (x\<^sup>2 / 2))"
    by (rule exp_converges)
  have z: "(\<lambda>k::nat. 0::real) sums 0"
    by simp
  have "(\<lambda>n. if even n then (- (x\<^sup>2 / 2)) ^ (n div 2) /\<^sub>R fact (n div 2) else 0)
          sums (0 + exp (- (x\<^sup>2 / 2)))"
    by (rule sums_if [OF z h])
  moreover have "(if even n then (- (x\<^sup>2 / 2)) ^ (n div 2) /\<^sub>R fact (n div 2) else 0)
      = diffs gauss_coeff n * x ^ n" for n
    unfolding gauss_even_term diffs_gauss_coeff by simp
  ultimately show ?thesis
    by simp
qed

lemma DERIV_gauss_int: "DERIV gauss_int x :> exp (- (x\<^sup>2 / 2))"
proof -
  have "((\<lambda>x. \<Sum>n. gauss_coeff n * x ^ n) has_field_derivative
      (\<Sum>n. diffs gauss_coeff n * x ^ n)) (at x)"
    by (rule termdiffs_strong_converges_everywhere) (rule gauss_int_summable)
  moreover have "(\<Sum>n. diffs gauss_coeff n * x ^ n) = exp (- (x\<^sup>2 / 2))"
    using gauss_deriv_sums by (rule sums_unique [symmetric])
  moreover have "(\<lambda>x. \<Sum>n. gauss_coeff n * x ^ n) = gauss_int"
    by (rule ext) (simp add: gauss_int_def)
  ultimately show ?thesis
    by simp
qed

subsection \<open>The integral is odd, increasing and bounded\<close>

text \<open>
  For \<open>a > 0\<close> the tail beyond \<open>a\<close> is at most \<open>exp (- a\<^sup>2 / 2) / a\<close>, because
  \<open>gauss_int x + exp (- x\<^sup>2 / 2) / x\<close> decreases on the positive half line.
\<close>

lemma gauss_int_zero: "gauss_int 0 = 0"
proof -
  have z: "(\<lambda>n. gauss_coeff n * 0 ^ n) = (\<lambda>n. 0)"
  proof
    fix n show "gauss_coeff n * 0 ^ n = 0"
      by (cases n) (simp_all add: gauss_coeff_def)
  qed
  show ?thesis
    unfolding gauss_int_def z by simp
qed

lemma gauss_int_strict_mono: "x < y \<Longrightarrow> gauss_int x < gauss_int y"
  by (rule DERIV_pos_imp_increasing [of x y gauss_int]) (auto intro: DERIV_gauss_int)

lemma gauss_int_mono: "x \<le> y \<Longrightarrow> gauss_int x \<le> gauss_int y"
  using gauss_int_strict_mono [of x y] by (cases "x = y") auto

lemma gauss_int_minus: "gauss_int (- x) = - gauss_int x"
proof -
  have "gauss_coeff n * (- x) ^ n = - (gauss_coeff n * x ^ n)" for n
    by (simp add: gauss_coeff_def)
  then have "gauss_int (- x) = (\<Sum>n. - (gauss_coeff n * x ^ n))"
    by (simp add: gauss_int_def)
  also have "\<dots> = - gauss_int x"
    unfolding gauss_int_def by (rule suminf_minus [OF gauss_int_summable])
  finally show ?thesis .
qed

lemma DERIV_gauss_tail:
  assumes "0 < x"
  shows "DERIV (\<lambda>x. gauss_int x + exp (- (x\<^sup>2 / 2)) / x) x :> - (exp (- (x\<^sup>2 / 2)) / x\<^sup>2)"
  using assms
  by (auto intro!: derivative_eq_intros DERIV_gauss_int simp: power2_eq_square field_simps)

lemma gauss_int_tail_le:
  assumes a: "0 < a"
  shows "gauss_int x \<le> gauss_int a + exp (- (a\<^sup>2 / 2)) / a"
proof (cases "a \<le> x")
  case True
  have "gauss_int x + exp (- (x\<^sup>2 / 2)) / x \<le> gauss_int a + exp (- (a\<^sup>2 / 2)) / a"
  proof (rule DERIV_nonpos_imp_nonincreasing [OF True])
    fix y assume "a \<le> y" "y \<le> x"
    with a have "0 < y" by simp
    then show "\<exists>d. DERIV (\<lambda>x. gauss_int x + exp (- (x\<^sup>2 / 2)) / x) y :> d \<and> d \<le> 0"
      by (intro exI [of _ "- (exp (- (y\<^sup>2 / 2)) / y\<^sup>2)"] conjI DERIV_gauss_tail) simp_all
  qed
  moreover have "0 \<le> exp (- (x\<^sup>2 / 2)) / x"
    using a True by simp
  ultimately show ?thesis by linarith
next
  case False
  then have "gauss_int x \<le> gauss_int a"
    by (intro gauss_int_mono) simp
  moreover have "0 \<le> exp (- (a\<^sup>2 / 2)) / a"
    using a by simp
  ultimately show ?thesis by linarith
qed

lemma gauss_int_bdd_above: "bdd_above (range gauss_int)"
proof (rule bdd_aboveI)
  fix y assume "y \<in> range gauss_int"
  then obtain x where "y = gauss_int x" by auto
  then show "y \<le> gauss_int 1 + exp (- (1\<^sup>2 / 2)) / 1"
    using gauss_int_tail_le [of 1 x] by simp
qed

lemma gauss_int_less_half_mass: "gauss_int x < gauss_half_mass"
proof -
  have "gauss_int x < gauss_int (x + 1)"
    by (rule gauss_int_strict_mono) simp
  also have "\<dots> \<le> gauss_half_mass"
    unfolding gauss_half_mass_def by (rule cSUP_upper [OF UNIV_I gauss_int_bdd_above])
  finally show ?thesis .
qed

lemma gauss_half_mass_pos: "0 < gauss_half_mass"
  using gauss_int_less_half_mass [of 0] by (simp add: gauss_int_zero)


lemma gauss_int_approaches:
  assumes "e < gauss_half_mass"
  shows "\<exists>x. e < gauss_int x"
  using assms unfolding gauss_half_mass_def
  by (subst (asm) less_cSUP_iff) (auto intro: gauss_int_bdd_above)

subsection \<open>The distribution function is a bijection onto the open unit interval\<close>

lemma DERIV_std_normal_cdf:
  "DERIV std_normal_cdf x :> exp (- (x\<^sup>2 / 2)) / (2 * gauss_half_mass)"
proof -
  have "DERIV (\<lambda>x. 1 / 2 + gauss_int x / (2 * gauss_half_mass)) x
      :> exp (- (x\<^sup>2 / 2)) / (2 * gauss_half_mass)"
    using gauss_half_mass_pos by (auto intro!: derivative_eq_intros DERIV_gauss_int)
  moreover have "(\<lambda>x. 1 / 2 + gauss_int x / (2 * gauss_half_mass)) = std_normal_cdf"
    by (rule ext) (simp add: std_normal_cdf_def)
  ultimately show ?thesis by simp
qed

lemma std_normal_cdf_strict_mono: "x < y \<Longrightarrow> std_normal_cdf x < std_normal_cdf y"
  using gauss_int_strict_mono [of x y] gauss_half_mass_pos
  by (simp add: std_normal_cdf_def divide_strict_right_mono)

lemma std_normal_cdf_less_iff: "std_normal_cdf x < std_normal_cdf y \<longleftrightarrow> x < y"
  using std_normal_cdf_strict_mono [of x y] std_normal_cdf_strict_mono [of y x]
  by (cases x y rule: linorder_cases) auto

lemma std_normal_cdf_le_iff: "std_normal_cdf x \<le> std_normal_cdf y \<longleftrightarrow> x \<le> y"
  using std_normal_cdf_less_iff [of y x] by (simp add: not_less [symmetric])

lemma std_normal_cdf_inj: "inj std_normal_cdf"
proof (rule injI)
  fix x y assume "std_normal_cdf x = std_normal_cdf y"
  then show "x = y"
    using std_normal_cdf_less_iff [of x y] std_normal_cdf_less_iff [of y x] by auto
qed

lemma std_normal_cdf_zero: "std_normal_cdf 0 = 1 / 2"
  by (simp add: std_normal_cdf_def gauss_int_zero)

lemma std_normal_cdf_minus: "std_normal_cdf (- x) = 1 - std_normal_cdf x"
  by (simp add: std_normal_cdf_def gauss_int_minus)

lemma std_normal_cdf_less_one: "std_normal_cdf x < 1"
proof -
  have "gauss_int x / (2 * gauss_half_mass) < 1 / 2"
    using gauss_int_less_half_mass [of x] gauss_half_mass_pos by (simp add: field_simps)
  then show ?thesis by (simp add: std_normal_cdf_def)
qed

lemma std_normal_cdf_pos: "0 < std_normal_cdf x"
  using std_normal_cdf_less_one [of "- x"] by (simp add: std_normal_cdf_minus)

lemma std_normal_cdf_isCont: "isCont std_normal_cdf x"
  by (rule DERIV_isCont [OF DERIV_std_normal_cdf])

lemma std_normal_cdf_surj_upper:
  assumes "1 / 2 \<le> p" "p < 1"
  shows "\<exists>x. std_normal_cdf x = p"
proof -
  have "(2 * p - 1) * gauss_half_mass < gauss_half_mass"
    using assms gauss_half_mass_pos by simp
  then obtain b where b: "(2 * p - 1) * gauss_half_mass < gauss_int b"
    using gauss_int_approaches by blast
  have "0 \<le> (2 * p - 1) * gauss_half_mass"
    using assms gauss_half_mass_pos by simp
  with b have "gauss_int 0 < gauss_int b"
    by (simp add: gauss_int_zero)
  then have b0: "0 \<le> b"
    using gauss_int_mono [of b 0] by (cases "0 \<le> b") auto
  have lo: "std_normal_cdf 0 \<le> p"
    using assms by (simp add: std_normal_cdf_zero)
  have hi: "p \<le> std_normal_cdf b"
    using b gauss_half_mass_pos by (simp add: std_normal_cdf_def field_simps)
  have "\<exists>x. 0 \<le> x \<and> x \<le> b \<and> std_normal_cdf x = p"
    by (rule IVT [OF lo hi b0]) (simp add: std_normal_cdf_isCont)
  then show ?thesis by blast
qed

lemma std_normal_cdf_surj:
  assumes "0 < p" "p < 1"
  shows "\<exists>x. std_normal_cdf x = p"
proof (cases "1 / 2 \<le> p")
  case True
  then show ?thesis using assms by (intro std_normal_cdf_surj_upper)
next
  case False
  then have "\<exists>x. std_normal_cdf x = 1 - p"
    using assms by (intro std_normal_cdf_surj_upper) simp_all
  then obtain x where "std_normal_cdf x = 1 - p" ..
  then have "std_normal_cdf (- x) = p"
    by (simp add: std_normal_cdf_minus)
  then show ?thesis ..
qed

subsection \<open>The quantile function\<close>

lemma quantile_cdf: "std_normal_quantile (std_normal_cdf x) = x"
  unfolding std_normal_quantile_def by (rule the_inv_f_f [OF std_normal_cdf_inj])

lemma cdf_quantile:
  assumes "0 < p" "p < 1"
  shows "std_normal_cdf (std_normal_quantile p) = p"
proof -
  obtain x where "std_normal_cdf x = p"
    using std_normal_cdf_surj [OF assms] ..
  then show ?thesis
    using quantile_cdf [of x] by simp
qed

lemma quantile_less_iff:
  assumes "0 < p" "p < 1" "0 < q" "q < 1"
  shows "std_normal_quantile p < std_normal_quantile q \<longleftrightarrow> p < q"
  using std_normal_cdf_less_iff [of "std_normal_quantile p" "std_normal_quantile q"]
  by (simp add: cdf_quantile assms)

lemma quantile_le_iff:
  assumes "0 < p" "p < 1" "0 < q" "q < 1"
  shows "std_normal_quantile p \<le> std_normal_quantile q \<longleftrightarrow> p \<le> q"
  using std_normal_cdf_le_iff [of "std_normal_quantile p" "std_normal_quantile q"]
  by (simp add: cdf_quantile assms)

lemma quantile_half: "std_normal_quantile (1 / 2) = 0"
  using quantile_cdf [of 0] by (simp add: std_normal_cdf_zero)


lemma quantile_pos:
  assumes "1 / 2 < p" "p < 1"
  shows "0 < std_normal_quantile p"
  using quantile_less_iff [of "1 / 2" p] assms by (simp add: quantile_half)

lemma quantile_nonneg:
  assumes "1 / 2 \<le> p" "p < 1"
  shows "0 \<le> std_normal_quantile p"
  using quantile_le_iff [of "1 / 2" p] assms by (simp add: quantile_half)

lemma quantile_le_cdf:
  assumes "0 < p" "p \<le> std_normal_cdf a"
  shows "std_normal_quantile p \<le> a"
proof -
  have p1: "p < 1"
    using assms std_normal_cdf_less_one [of a] by simp
  have "std_normal_cdf (std_normal_quantile p) \<le> std_normal_cdf a"
    using assms by (simp add: cdf_quantile p1)
  then show ?thesis
    by (simp add: std_normal_cdf_le_iff)
qed

section \<open>The formula engine on its regular and degenerate paths\<close>

lemma norm_ppf_Fin: "0 < p \<Longrightarrow> p < 1 \<Longrightarrow> norm_ppf p = Fin (std_normal_quantile p)"
  by (simp add: norm_ppf_def)

lemma py_int_nonneg: "0 \<le> x \<Longrightarrow> py_int x = \<lfloor>x\<rfloor>"
  by (simp add: py_int_def)

lemma std_error_pos: "0 < n1 \<Longrightarrow> 0 < n2 \<Longrightarrow> 0 < std_error n1 n2"
  by (simp add: std_error_def add_pos_pos)

lemma math_sqrt_std_error:
  "0 < n1 \<Longrightarrow> 0 < n2 \<Longrightarrow>
   math_sqrt ((1 / of_int n1 + 1 / of_int n2) / 4) = Inr (std_error n1 n2)"
  by (simp add: math_sqrt_def std_error_def not_less add_nonneg_nonneg)

lemma calculate_power_degenerate:
  assumes "py_int (of_int n * pct / 100) = 0 \<or> n - py_int (of_int n * pct / 100) = 0"
  shows "calculate_power n pct mde alpha
    = Inr (Fin 0, py_int (of_int n * pct / 100), n - py_int (of_int n * pct / 100))"
  using assms by (auto simp: calculate_power_def Let_def)

lemma calculate_mde_degenerate:
  assumes "py_int (of_int n * pct / 100) = 0 \<or> n - py_int (of_int n * pct / 100) = 0"
  shows "calculate_mde n pct pwr alpha
    = Inr (Fin 1, py_int (of_int n * pct / 100), n - py_int (of_int n * pct / 100))"
  using assms by (auto simp: calculate_mde_def Let_def)

lemma calculate_power_regular:
  assumes n1: "n1 = py_int (of_int n * pct / 100)" and n2: "n2 = n - n1"
    and pos: "0 < n1" "0 < n2" and alpha: "0 < alpha" "alpha < 2"
  shows "calculate_power n pct mde alpha
    = Inr (Fin (power_curve (std_normal_quantile (1 - alpha / 2)) (mde / std_error n1 n2)), n1, n2)"
proof -
  have se: "std_error n1 n2 \<noteq> 0"
    using std_error_pos [OF pos] by simp
  have z: "norm_ppf (1 - alpha / 2) = Fin (std_normal_quantile (1 - alpha / 2))"
    using alpha by (intro norm_ppf_Fin) simp_all
  show ?thesis
    unfolding calculate_power_def Let_def n1 [symmetric] n2 [symmetric]
    using pos se by (simp add: math_sqrt_std_error z pf_sub_def power_curve_def)
qed

lemma calculate_mde_regular:
  assumes n1: "n1 = py_int (of_int n * pct / 100)" and n2: "n2 = n - n1"
    and pos: "0 < n1" "0 < n2" and alpha: "0 < alpha" "alpha < 2" and pwr: "0 < pwr" "pwr < 1"
  shows "calculate_mde n pct pwr alpha
    = Inr (Fin ((std_normal_quantile (1 - alpha / 2) + std_normal_quantile pwr) * std_error n1 n2),
        n1, n2)"
proof -
  have z: "norm_ppf (1 - alpha / 2) = Fin (std_normal_quantile (1 - alpha / 2))"
    using alpha by (intro norm_ppf_Fin) simp_all
  show ?thesis
    unfolding calculate_mde_def Let_def n1 [symmetric] n2 [symmetric]
    using pos by (simp add: math_sqrt_std_error z norm_ppf_Fin pwr)
qed

lemma group_sizes_range:
  assumes "1 \<le> n" "0 < pct" "pct < 100"
  shows "0 \<le> py_int (of_int n * pct / 100)" "py_int (of_int n * pct / 100) < n"
proof -
  have nn: "0 \<le> of_int n * pct / 100"
    using assms by simp
  then show "0 \<le> py_int (of_int n * pct / 100)"
    by (simp add: py_int_nonneg)
  have "of_int n * pct / 100 < of_int n"
    using assms by (simp add: field_simps)
  then have "\<lfloor>of_int n * pct / 100\<rfloor> < n"
    by (simp add: floor_less_iff)
  then show "py_int (of_int n * pct / 100) < n"
    using nn by (simp add: py_int_nonneg)
qed

lemma calculate_sample_size_regular:
  assumes mde: "mde \<noteq> 0" and pwr: "0 < pwr" "pwr < 1" and alpha: "0 < alpha" "alpha < 2"
    and pct: "pct \<noteq> 0" "pct \<noteq> 100"
  shows "calculate_sample_size mde pwr pct alpha =
    Inr (round_half_even
           (spec_n_total_raw (std_normal_quantile (1 - alpha / 2)) (std_normal_quantile pwr)
              (pct / 100) mde * (pct / 100))
         + round_half_even
           (spec_n_total_raw (std_normal_quantile (1 - alpha / 2)) (std_normal_quantile pwr)
              (pct / 100) mde * (1 - pct / 100)),
         round_half_even
           (spec_n_total_raw (std_normal_quantile (1 - alpha / 2)) (std_normal_quantile pwr)
              (pct / 100) mde * (pct / 100)),
         round_half_even
           (spec_n_total_raw (std_normal_quantile (1 - alpha / 2)) (std_normal_quantile pwr)
              (pct / 100) mde * (1 - pct / 100)))"
proof -
  have z: "norm_ppf (1 - alpha / 2) = Fin (std_normal_quantile (1 - alpha / 2))"
    using alpha by (intro norm_ppf_Fin) simp_all
  have b: "norm_ppf pwr = Fin (std_normal_quantile pwr)"
    using pwr by (intro norm_ppf_Fin)
  have p: "pct / 100 * (1 - pct / 100) \<noteq> 0"
    using pct by simp
  have raw: "(z * z) * (1 / 2 * (1 - 1 / 2)) * (1 / (pct / 100 * (1 - pct / 100))) / mde\<^sup>2
      = spec_n_total_raw za zb (pct / 100) mde" if "z = za + zb" for z za zb :: real
    unfolding spec_n_total_raw_def that by (simp add: power2_eq_square)
  show ?thesis
    unfolding calculate_sample_size_def Let_def z b
    using p mde by (simp only: if_False pf_add.simps pf_mul.simps pf_div.simps raw [OF refl]
        power_eq_0_iff py_round.simps sum.case simp_thms if_True)
qed

section \<open>Group sizes\<close>

text \<open>
  Claim C2, the group size invariant: whatever triple \<^verbatim>\<open>calculate_power\<close> or
  \<^verbatim>\<open>calculate_mde\<close> returns, its treatment and control counts add up to the input
  \<^verbatim>\<open>n_total\<close>; whatever triple \<^verbatim>\<open>calculate_sample_size\<close> returns, its counts add up
  to the total it returns.
\<close>

theorem group_size_invariant:
  "(calculate_power n pct mde alpha = Inr (p, a1, a2) \<longrightarrow> a1 + a2 = n) \<and>
   (calculate_mde n pct pwr alpha = Inr (m, b1, b2) \<longrightarrow> b1 + b2 = n) \<and>
   (calculate_sample_size mde pwr pct alpha = Inr (tot, c1, c2) \<longrightarrow> c1 + c2 = tot)"
proof (intro conjI impI)
  assume "calculate_power n pct mde alpha = Inr (p, a1, a2)"
  then show "a1 + a2 = n"
    by (auto simp: calculate_power_def Let_def split: if_splits sum.splits)
next
  assume "calculate_mde n pct pwr alpha = Inr (m, b1, b2)"
  then show "b1 + b2 = n"
    by (auto simp: calculate_mde_def Let_def split: if_splits sum.splits)
next
  assume "calculate_sample_size mde pwr pct alpha = Inr (tot, c1, c2)"
  then show "c1 + c2 = tot"
    by (auto simp: calculate_sample_size_def Let_def split: if_splits sum.splits)
qed

text \<open>
  The invariant at \<^verbatim>\<open>n_total = 2000\<close>, 50 percent, \<^verbatim>\<open>mde = 0.02\<close>, power 0.8 and
  \<^verbatim>\<open>alpha = 0.05\<close>, where all three functions return a triple.
\<close>

theorem group_size_invariant_witness:
  "\<exists>p m t c1 c2.
     calculate_power 2000 50 (1 / 50) (1 / 20) = Inr (p, 1000, 1000) \<and>
     calculate_mde 2000 50 (4 / 5) (1 / 20) = Inr (m, 1000, 1000) \<and>
     calculate_sample_size (1 / 50) (4 / 5) 50 (1 / 20) = Inr (t, c1, c2) \<and>
     (1000 :: int) + 1000 = 2000 \<and> c1 + c2 = t"
proof -
  have a: "calculate_power 2000 50 (1 / 50) (1 / 20)
      = Inr (Fin (power_curve (std_normal_quantile (1 - 1 / 20 / 2)) (1 / 50 / std_error 1000 1000)),
          1000, 1000)"
    by (rule calculate_power_regular) (simp_all add: py_int_def)
  have b: "calculate_mde 2000 50 (4 / 5) (1 / 20)
      = Inr (Fin ((std_normal_quantile (1 - 1 / 20 / 2) + std_normal_quantile (4 / 5))
          * std_error 1000 1000), 1000, 1000)"
    by (rule calculate_mde_regular) (simp_all add: py_int_def)
  obtain t c1 c2 where c: "calculate_sample_size (1 / 50) (4 / 5) 50 (1 / 20) = Inr (t, c1, c2)"
    using calculate_sample_size_regular [of "1 / 50" "4 / 5" "1 / 20" 50] by simp
  from a b c group_size_invariant [of 2000 50 "1 / 50" "1 / 20" _ 1000 1000 "4 / 5" _ 1000 1000 t c1 c2]
  show ?thesis by blast
qed

section \<open>The rounding policy of the sample size\<close>

text \<open>
  Claim C3, the rounding policy of the sample size: on every valid input
  (\<open>mde > 0\<close>, power and alpha in \<open>(0, 1)\<close>, the percentage in \<open>(0, 100)\<close>)
  \<^verbatim>\<open>calculate_sample_size\<close> returns the two group sizes obtained by rounding
  \<open>n_total_raw * frac\<close> and \<open>n_total_raw * (1 - frac)\<close>, where \<open>n_total_raw\<close> is the closed
  form of the specification, and returns their sum as the total.
\<close>

theorem sample_size_rounding_policy:
  assumes "0 < mde" "0 < pwr" "pwr < 1" "0 < alpha" "alpha < 1" "0 < pct" "pct < 100"
  shows "calculate_sample_size mde pwr pct alpha =
    (let n_total_raw =
           spec_n_total_raw (std_normal_quantile (1 - alpha / 2)) (std_normal_quantile pwr)
             (pct / 100) mde;
         n1 = round_half_even (n_total_raw * (pct / 100));
         n2 = round_half_even (n_total_raw * (1 - pct / 100))
     in Inr (n1 + n2, n1, n2))"
  unfolding Let_def using assms by (intro calculate_sample_size_regular) simp_all

text \<open>
  The policy at \<^verbatim>\<open>mde = 0.02\<close>, power 0.8, 50 percent and \<^verbatim>\<open>alpha = 0.05\<close>.
\<close>

theorem sample_size_rounding_policy_witness:
  "calculate_sample_size (1 / 50) (4 / 5) 50 (1 / 20) =
    (let n_total_raw =
           spec_n_total_raw (std_normal_quantile (1 - (1 / 20) / 2)) (std_normal_quantile (4 / 5))
             (50 / 100) (1 / 50);
         n1 = round_half_even (n_total_raw * (50 / 100));
         n2 = round_half_even (n_total_raw * (1 - 50 / 100))
     in Inr (n1 + n2, n1, n2))"
  using sample_size_rounding_policy [where mde = "1 / 50" and pwr = "4 / 5" and alpha = "1 / 20"
      and pct = 50]
  by simp

section \<open>Degenerate designs\<close>

text \<open>
  Claim C5, the degenerate design: for a non-negative total and percentage, when the
  truncated treatment size \<open>n1 = \<lfloor>n_total * pct / 100\<rfloor>\<close> or the control size
  \<open>n2 = n_total - n1\<close> is zero, \<^verbatim>\<open>calculate_power\<close> returns power 0 and
  \<^verbatim>\<open>calculate_mde\<close> returns the sentinel 1, each with those group sizes and without
  raising; and \<^verbatim>\<open>calculate_power(20, 1, 0.1, 0.05)\<close> returns \<open>(0, 0, 20)\<close>.
\<close>

theorem degenerate_design:
  assumes "0 \<le> n" "0 \<le> pct"
    and "n1 = \<lfloor>of_int n * pct / 100\<rfloor>" "n2 = n - n1" "n1 = 0 \<or> n2 = 0"
  shows "calculate_power n pct mde alpha = Inr (Fin 0, n1, n2) \<and>
    calculate_mde n pct pwr alpha = Inr (Fin 1, n1, n2) \<and>
    calculate_power 20 1 (1 / 10) (1 / 20) = Inr (Fin 0, 0, 20)"
proof -
  have "0 \<le> of_int n * pct / 100"
    using assms by simp
  then have n1: "py_int (of_int n * pct / 100) = n1"
    using assms by (simp add: py_int_nonneg)
  have "calculate_power n pct mde alpha = Inr (Fin 0, n1, n2)"
    using calculate_power_degenerate [of n pct mde alpha] assms unfolding n1 by simp
  moreover have "calculate_mde n pct pwr alpha = Inr (Fin 1, n1, n2)"
    using calculate_mde_degenerate [of n pct pwr alpha] assms unfolding n1 by simp
  moreover have "calculate_power 20 1 (1 / 10) (1 / 20) = Inr (Fin 0, 0, 20)"
    using calculate_power_degenerate [of 20 1 "1 / 10" "1 / 20"] by (simp add: py_int_def)
  ultimately show ?thesis by simp
qed

text \<open>
  The degenerate design at \<^verbatim>\<open>n_total = 20\<close> and 1 percent.
\<close>

theorem degenerate_design_witness:
  "calculate_power 20 1 (1 / 10) (1 / 20) = Inr (Fin 0, 0, 20) \<and>
   calculate_mde 20 1 (4 / 5) (1 / 20) = Inr (Fin 1, 0, 20)"
  using degenerate_design [where n = 20 and pct = 1 and ?n1.0 = 0 and ?n2.0 = 20
      and mde = "1 / 10" and alpha = "1 / 20" and pwr = "4 / 5"]
  by simp

lemma calculate_power_past_guard:
  assumes "0 < n1" "0 < n2" "n1 = py_int (of_int n * pct / 100)" "n2 = n - n1"
  shows "calculate_power n pct mde alpha =
    Inr (pf_add
           (pf_sub (Fin 1)
              (norm_cdf (pf_sub (norm_ppf (1 - alpha / 2)) (Fin (mde / std_error n1 n2)))))
           (norm_cdf (pf_sub (pf_neg (norm_ppf (1 - alpha / 2))) (Fin (mde / std_error n1 n2)))),
         n1, n2)"
proof -
  have se: "std_error n1 n2 \<noteq> 0"
    using std_error_pos [OF assms(1,2)] by simp
  show ?thesis
    unfolding calculate_power_def Let_def assms(3) [symmetric] assms(4) [symmetric]
    using assms(1,2) se by (simp add: math_sqrt_std_error)
qed

lemma calculate_mde_past_guard:
  assumes "0 < n1" "0 < n2" "n1 = py_int (of_int n * pct / 100)" "n2 = n - n1"
  shows "calculate_mde n pct pwr alpha =
    Inr (pf_mul (pf_add (norm_ppf (1 - alpha / 2)) (norm_ppf pwr)) (Fin (std_error n1 n2)),
         n1, n2)"
  unfolding calculate_mde_def Let_def assms(3) [symmetric] assms(4) [symmetric]
  using assms(1,2) by (simp add: math_sqrt_std_error)

text \<open>
  Claim C10: for \<open>n_total \<ge> 1\<close> and a percentage in \<open>[1, 99]\<close>, \<^verbatim>\<open>calculate_power\<close> and
  \<^verbatim>\<open>calculate_mde\<close> return the treatment size \<open>n1 = \<lfloor>n_total * pct / 100\<rfloor>\<close> and a control
  size \<open>n2 = n_total - n1\<close> of at least 1. So the \<open>n2 = 0\<close> half of their guard is never what
  fires: the guard returns its values \<open>0\<close> and \<open>1\<close> when \<open>n1 = 0\<close>, and when \<open>n1\<close> is not zero
  both functions go on to the formula.
\<close>

theorem control_group_nonempty:
  assumes "1 \<le> n" "1 \<le> pct" "pct \<le> 99"
  shows "\<exists>p m n1 n2.
    calculate_power n pct mde alpha = Inr (p, n1, n2) \<and>
    calculate_mde n pct pwr alpha = Inr (m, n1, n2) \<and>
    n1 = \<lfloor>of_int n * pct / 100\<rfloor> \<and> n2 = n - n1 \<and> 1 \<le> n2 \<and>
    (n1 = 0 \<longrightarrow> p = Fin 0 \<and> m = Fin 1) \<and>
    (n1 \<noteq> 0 \<longrightarrow>
      p = pf_add
            (pf_sub (Fin 1)
               (norm_cdf (pf_sub (norm_ppf (1 - alpha / 2)) (Fin (mde / std_error n1 n2)))))
            (norm_cdf (pf_sub (pf_neg (norm_ppf (1 - alpha / 2))) (Fin (mde / std_error n1 n2)))) \<and>
      m = pf_mul (pf_add (norm_ppf (1 - alpha / 2)) (norm_ppf pwr)) (Fin (std_error n1 n2)))"
proof -
  define n1 where "n1 = py_int (of_int n * pct / 100)"
  define n2 where "n2 = n - n1"
  have "0 \<le> of_int n * pct / 100"
    using assms by simp
  then have fl: "n1 = \<lfloor>of_int n * pct / 100\<rfloor>"
    unfolding n1_def by (rule py_int_nonneg)
  have rng: "0 \<le> n1" "n1 < n"
    unfolding n1_def using assms by (intro group_sizes_range; simp)+
  then have n2: "1 \<le> n2"
    by (simp add: n2_def)
  show ?thesis
  proof (cases "n1 = 0")
    case True
    have "calculate_power n pct mde alpha = Inr (Fin 0, n1, n2)"
      using calculate_power_degenerate [of n pct mde alpha] True by (simp add: n1_def n2_def)
    moreover have "calculate_mde n pct pwr alpha = Inr (Fin 1, n1, n2)"
      using calculate_mde_degenerate [of n pct pwr alpha] True by (simp add: n1_def n2_def)
    ultimately show ?thesis
      using True fl n2 n2_def by auto
  next
    case False
    then have pos: "0 < n1" "0 < n2"
      using rng n2 by simp_all
    note a = calculate_power_past_guard [OF pos n1_def n2_def, of mde alpha]
    note b = calculate_mde_past_guard [OF pos n1_def n2_def, of pwr alpha]
    from a b False fl n2 n2_def show ?thesis
      by auto
  qed
qed

text \<open>
  The two cases of the claim: at \<^verbatim>\<open>n_total = 20\<close> and 1 percent the treatment group is empty
  and the guard fires with a control group of 20; at \<^verbatim>\<open>n_total = 2000\<close> and 50 percent both
  groups are 1000.
\<close>

theorem control_group_nonempty_witness:
  "calculate_power 20 1 (1 / 10) (1 / 20) = Inr (Fin 0, 0, 20) \<and>
   calculate_mde 20 1 (4 / 5) (1 / 20) = Inr (Fin 1, 0, 20) \<and>
   (\<exists>p m. calculate_power 2000 50 (1 / 50) (1 / 20) = Inr (p, 1000, 1000) \<and>
     calculate_mde 2000 50 (4 / 5) (1 / 20) = Inr (m, 1000, 1000))"
proof -
  have f: "\<lfloor>real_of_int 20 * 1 / 100\<rfloor> = 0" "\<lfloor>real_of_int 2000 * 50 / 100\<rfloor> = 1000"
    by simp_all
  from control_group_nonempty [of 20 1 "1 / 10" "1 / 20" "4 / 5"]
  have a: "calculate_power 20 1 (1 / 10) (1 / 20) = Inr (Fin 0, 0, 20) \<and>
      calculate_mde 20 1 (4 / 5) (1 / 20) = Inr (Fin 1, 0, 20)"
    unfolding f by auto
  from control_group_nonempty [of 2000 50 "1 / 50" "1 / 20" "4 / 5"]
  have b: "\<exists>p m. calculate_power 2000 50 (1 / 50) (1 / 20) = Inr (p, 1000, 1000) \<and>
      calculate_mde 2000 50 (4 / 5) (1 / 20) = Inr (m, 1000, 1000)"
    unfolding f by auto
  from a b show ?thesis by simp
qed

section \<open>When the sample size raises\<close>

text \<open>A float that is not finite stays so through the arithmetic of the function.\<close>

lemma pf_mul_Fin_not_finite: "\<not> pf_finite x \<Longrightarrow> b \<noteq> 0 \<Longrightarrow> \<not> pf_finite (pf_mul x (Fin b))"
  by (cases x) simp_all

lemma pf_mul_self_not_finite: "\<not> pf_finite x \<Longrightarrow> \<not> pf_finite (pf_mul x x)"
  by (cases x) simp_all

lemma pf_div_Fin_not_finite: "\<not> pf_finite x \<Longrightarrow> \<not> pf_finite (pf_div x (Fin b))"
  by (cases x) simp_all

lemma pf_div_zero_not_finite: "\<not> pf_finite (pf_div x (Fin 0))"
  by (cases x) simp_all

lemma pf_add_not_finite: "\<not> pf_finite x \<or> \<not> pf_finite y \<Longrightarrow> \<not> pf_finite (pf_add x y)"
  by (cases x; cases y) simp_all

lemma norm_ppf_not_finite: "p \<le> 0 \<or> 1 \<le> p \<Longrightarrow> \<not> pf_finite (norm_ppf p)"
  by (auto simp: norm_ppf_def)

lemma py_round_not_finite: "\<not> pf_finite x \<Longrightarrow> isl (py_round x)"
  by (cases x) simp_all

lemma py_round_error_kind: "py_round x = Inl e \<Longrightarrow> e = ValueError \<or> e = OverflowError"
  by (cases x) auto

lemma calculate_sample_size_round_raises:
  assumes pct: "pct \<noteq> 0" "pct \<noteq> 100"
    and bad: "mde = 0 \<or> pwr \<le> 0 \<or> 1 \<le> pwr \<or> alpha \<le> 0 \<or> 2 \<le> alpha"
  shows "calculate_sample_size mde pwr pct alpha = Inl ValueError \<or>
    calculate_sample_size mde pwr pct alpha = Inl OverflowError"
proof -
  define z where "z = pf_add (norm_ppf (1 - alpha / 2)) (norm_ppf pwr)"
  define t3 where "t3 = 1 / (pct / 100 * (1 - pct / 100))"
  define nt where "nt = pf_div (pf_mul (pf_mul (pf_mul z z) (Fin (1 / 2 * (1 - 1 / 2)))) (Fin t3))
    (Fin (mde\<^sup>2))"
  have p: "pct / 100 * (1 - pct / 100) \<noteq> 0"
    using pct by simp
  then have t3: "t3 \<noteq> 0"
    by (simp add: t3_def)
  have "\<not> pf_finite nt"
  proof (cases "mde = 0")
    case True
    then show ?thesis
      by (simp add: nt_def pf_div_zero_not_finite)
  next
    case False
    with bad have "1 - alpha / 2 \<le> 0 \<or> 1 \<le> 1 - alpha / 2 \<or> pwr \<le> 0 \<or> 1 \<le> pwr"
      by auto
    then have "\<not> pf_finite (norm_ppf (1 - alpha / 2)) \<or> \<not> pf_finite (norm_ppf pwr)"
      using norm_ppf_not_finite [of "1 - alpha / 2"] norm_ppf_not_finite [of pwr] by blast
    then have "\<not> pf_finite z"
      unfolding z_def by (rule pf_add_not_finite)
    then show ?thesis
      unfolding nt_def using t3
      by (intro pf_div_Fin_not_finite pf_mul_Fin_not_finite pf_mul_self_not_finite) simp_all
  qed
  then have "\<not> pf_finite (pf_mul nt (Fin (pct / 100)))"
    using pct by (intro pf_mul_Fin_not_finite) simp_all
  then have "isl (py_round (pf_mul nt (Fin (pct / 100))))"
    by (rule py_round_not_finite)
  then obtain e where e: "py_round (pf_mul nt (Fin (pct / 100))) = Inl e"
    by (cases "py_round (pf_mul nt (Fin (pct / 100)))") simp_all
  then have "calculate_sample_size mde pwr pct alpha = Inl e"
    using p unfolding calculate_sample_size_def Let_def z_def [symmetric] t3_def [symmetric]
      nt_def [symmetric]
    by simp
  then show ?thesis
    using py_round_error_kind [OF e] by auto
qed

lemma calculate_sample_size_zero_division:
  "pct = 0 \<or> pct = 100 \<Longrightarrow> calculate_sample_size mde pwr pct alpha = Inl ZeroDivisionError"
  by (auto simp: calculate_sample_size_def Let_def)

lemma calculate_sample_size_minus_mde:
  "calculate_sample_size (- mde) pwr pct alpha = calculate_sample_size mde pwr pct alpha"
  unfolding calculate_sample_size_def power2_minus ..

text \<open>
  Claim C4 as amended: \<^verbatim>\<open>calculate_sample_size\<close> validates nothing and has no domain error of
  its own. It raises \<^verbatim>\<open>ZeroDivisionError\<close> when the percentage is 0 or 100. When the
  percentage is neither and \<open>mde = 0\<close>, or the power is outside \<open>(0, 1)\<close>, or alpha is outside
  \<open>(0, 2)\<close>, the total is infinite or NaN and \<^verbatim>\<open>round\<close> raises \<^verbatim>\<open>OverflowError\<close> or
  \<^verbatim>\<open>ValueError\<close>. A negative \<open>mde\<close> is not rejected: it gives what \<open>- mde\<close> gives, since only
  its square is used; nor is a percentage above 100 or an alpha in \<open>[1, 2)\<close>, as the calls at
  150 percent and at \<^verbatim>\<open>alpha = 1.5\<close> show, which return a triple.
\<close>

theorem sample_size_raises:
  "(pct = 0 \<or> pct = 100 \<longrightarrow>
      calculate_sample_size mde pwr pct alpha = Inl ZeroDivisionError) \<and>
   (pct \<noteq> 0 \<and> pct \<noteq> 100 \<and> (mde = 0 \<or> pwr \<le> 0 \<or> 1 \<le> pwr \<or> alpha \<le> 0 \<or> 2 \<le> alpha) \<longrightarrow>
      calculate_sample_size mde pwr pct alpha = Inl ValueError \<or>
      calculate_sample_size mde pwr pct alpha = Inl OverflowError) \<and>
   calculate_sample_size (- mde) pwr pct alpha = calculate_sample_size mde pwr pct alpha \<and>
   \<not> isl (calculate_sample_size (1 / 50) (4 / 5) 150 (1 / 20)) \<and>
   \<not> isl (calculate_sample_size (1 / 50) (4 / 5) 50 (3 / 2))"
proof -
  have a: "\<exists>r. calculate_sample_size (1 / 50) (4 / 5) 150 (1 / 20) = Inr r"
    using calculate_sample_size_regular [of "1 / 50" "4 / 5" "1 / 20" 150] by simp
  have b: "\<exists>r. calculate_sample_size (1 / 50) (4 / 5) 50 (3 / 2) = Inr r"
    using calculate_sample_size_regular [of "1 / 50" "4 / 5" "3 / 2" 50] by simp
  from a b show ?thesis
    using calculate_sample_size_zero_division [of pct mde pwr alpha]
      calculate_sample_size_round_raises [of pct mde pwr alpha]
      calculate_sample_size_minus_mde [of mde pwr pct alpha]
    by auto
qed

text \<open>
  The amended claim at 0 percent, where the division raises, and at \<^verbatim>\<open>mde = 0\<close> with
  50 percent, where \<^verbatim>\<open>round\<close> does.
\<close>

theorem sample_size_raises_witness:
  "calculate_sample_size (1 / 50) (4 / 5) 0 (1 / 20) = Inl ZeroDivisionError \<and>
   (calculate_sample_size 0 (4 / 5) 50 (1 / 20) = Inl ValueError \<or>
    calculate_sample_size 0 (4 / 5) 50 (1 / 20) = Inl OverflowError)"
  using sample_size_raises [of 0 "1 / 50" "4 / 5" "1 / 20"]
    sample_size_raises [of 50 0 "4 / 5" "1 / 20"]
  by simp

text \<open>
  Claim C4 as stated fails: \<^verbatim>\<open>mde = -0.02\<close> is not positive, and the call with power 0.8,
  50 percent and \<^verbatim>\<open>alpha = 0.05\<close> returns the triple it returns for \<^verbatim>\<open>mde = 0.02\<close>.
\<close>

theorem domain_error_counterexample:
  "(- (1 / 50) :: real) \<le> 0 \<and>
   \<not> isl (calculate_sample_size (- (1 / 50)) (4 / 5) 50 (1 / 20)) \<and>
   calculate_sample_size (- (1 / 50)) (4 / 5) 50 (1 / 20)
     = calculate_sample_size (1 / 50) (4 / 5) 50 (1 / 20)"
proof -
  have a: "\<exists>r. calculate_sample_size (- (1 / 50)) (4 / 5) 50 (1 / 20) = Inr r"
    using calculate_sample_size_regular [of "- (1 / 50)" "4 / 5" "1 / 20" 50] by simp
  have b: "calculate_sample_size (- (1 / 50)) (4 / 5) 50 (1 / 20)
     = calculate_sample_size (1 / 50) (4 / 5) 50 (1 / 20)"
    by (simp add: calculate_sample_size_def)
  from a b show ?thesis by auto
qed

section \<open>The sign of the minimum detectable effect\<close>






section \<open>Monotonicity of the power\<close>

text \<open>
  The two-sided power is non-decreasing in the standardised effect on the non-negative
  half line when the critical value is non-negative: its derivative there is a difference
  of two densities, the first taken nearer to zero.
\<close>

lemma DERIV_power_curve:
  "DERIV (power_curve z) t :>
     exp (- ((z - t)\<^sup>2 / 2)) / (2 * gauss_half_mass)
     - exp (- ((- z - t)\<^sup>2 / 2)) / (2 * gauss_half_mass)"
proof -
  have a: "DERIV (\<lambda>t. std_normal_cdf (z - t)) t
      :> exp (- ((z - t)\<^sup>2 / 2)) / (2 * gauss_half_mass) * (0 - 1)"
    by (rule DERIV_chain2 [OF DERIV_std_normal_cdf]) (intro derivative_intros)
  have b: "DERIV (\<lambda>t. std_normal_cdf (- z - t)) t
      :> exp (- ((- z - t)\<^sup>2 / 2)) / (2 * gauss_half_mass) * (0 - 1)"
    by (rule DERIV_chain2 [OF DERIV_std_normal_cdf]) (intro derivative_intros)
  have "DERIV (\<lambda>t. 1 - std_normal_cdf (z - t) + std_normal_cdf (- z - t)) t
      :> 0 - exp (- ((z - t)\<^sup>2 / 2)) / (2 * gauss_half_mass) * (0 - 1)
        + exp (- ((- z - t)\<^sup>2 / 2)) / (2 * gauss_half_mass) * (0 - 1)"
    by (intro DERIV_add DERIV_diff DERIV_const a b)
  moreover have "(\<lambda>t. 1 - std_normal_cdf (z - t) + std_normal_cdf (- z - t)) = power_curve z"
    by (rule ext) (simp add: power_curve_def)
  ultimately show ?thesis
    by simp
qed

lemma power_curve_mono:
  assumes z: "0 \<le> z" and s: "0 \<le> s" and st: "s \<le> t"
  shows "power_curve z s \<le> power_curve z t"
proof (rule DERIV_nonneg_imp_nondecreasing [OF st])
  fix x assume "s \<le> x" "x \<le> t"
  with s have x: "0 \<le> x" by simp
  have "(z - x)\<^sup>2 \<le> (- z - x)\<^sup>2"
  proof -
    have "(- z - x)\<^sup>2 - (z - x)\<^sup>2 = 4 * (z * x)"
      by (simp add: power2_eq_square algebra_simps)
    moreover have "0 \<le> 4 * (z * x)"
      using z x by simp
    ultimately show ?thesis by linarith
  qed
  then have "exp (- ((- z - x)\<^sup>2 / 2)) \<le> exp (- ((z - x)\<^sup>2 / 2))"
    by simp
  then have "0 \<le> exp (- ((z - x)\<^sup>2 / 2)) / (2 * gauss_half_mass)
     - exp (- ((- z - x)\<^sup>2 / 2)) / (2 * gauss_half_mass)"
    using gauss_half_mass_pos by (simp add: divide_right_mono)
  then show "\<exists>y. DERIV (power_curve z) x :> y \<and> 0 \<le> y"
    using DERIV_power_curve [of z x] by blast
qed

lemma power_curve_pos: "0 < power_curve z t"
proof -
  have "1 - std_normal_cdf (z - t) = std_normal_cdf (- (z - t))"
    by (simp only: std_normal_cdf_minus)
  then have "power_curve z t = std_normal_cdf (- (z - t)) + std_normal_cdf (- z - t)"
    by (simp add: power_curve_def)
  then show ?thesis
    using std_normal_cdf_pos [of "- (z - t)"] std_normal_cdf_pos [of "- z - t"] by linarith
qed

lemma std_error_antimono:
  assumes "0 < a" "a \<le> a'" "0 < b" "b \<le> b'"
  shows "std_error a' b' \<le> std_error a b"
proof -
  have "1 / real_of_int a' \<le> 1 / real_of_int a" "1 / real_of_int b' \<le> 1 / real_of_int b"
    using assms by (simp_all add: frac_le)
  then show ?thesis
    unfolding std_error_def by (intro real_sqrt_le_mono mult_left_mono add_mono) simp_all
qed

lemma group_sizes_mono:
  assumes "0 < pct" "pct < 100" "1 \<le> n" "n \<le> n'"
  shows "py_int (of_int n * pct / 100) \<le> py_int (of_int n' * pct / 100)"
    and "n - py_int (of_int n * pct / 100) \<le> n' - py_int (of_int n' * pct / 100)"
proof -
  have nn: "0 \<le> of_int n * pct / 100" "0 \<le> of_int n' * pct / 100"
    using assms by simp_all
  have le: "of_int n * pct / 100 \<le> of_int n' * pct / 100"
    using assms by (simp add: divide_right_mono mult_right_mono)
  show "py_int (of_int n * pct / 100) \<le> py_int (of_int n' * pct / 100)"
    using nn le by (simp add: py_int_nonneg floor_mono)
  have "of_int n' * pct / 100 - of_int n * pct / 100 = of_int (n' - n) * (pct / 100)"
    by (simp add: algebra_simps)
  also have "\<dots> \<le> of_int (n' - n) * 1"
    using assms by (intro mult_left_mono) simp_all
  finally have "of_int n' * pct / 100 \<le> of_int n * pct / 100 + of_int (n' - n)"
    by simp
  then have "\<lfloor>of_int n' * pct / 100\<rfloor> \<le> \<lfloor>of_int n * pct / 100 + of_int (n' - n)\<rfloor>"
    by (rule floor_mono)
  then have "\<lfloor>of_int n' * pct / 100\<rfloor> \<le> \<lfloor>of_int n * pct / 100\<rfloor> + (n' - n)"
    by (simp only: floor_add_int)
  then show "n - py_int (of_int n * pct / 100) \<le> n' - py_int (of_int n' * pct / 100)"
    using nn by (simp add: py_int_nonneg)
qed

lemma calculate_power_cases:
  assumes "0 < pct" "pct < 100" "1 \<le> n" "0 < alpha" "alpha < 1"
  shows "py_int (of_int n * pct / 100) = 0 \<and>
      calculate_power n pct mde alpha = Inr (Fin 0, 0, n)
    \<or> 0 < py_int (of_int n * pct / 100) \<and> 0 < n - py_int (of_int n * pct / 100) \<and>
      calculate_power n pct mde alpha =
        Inr (Fin (power_curve (std_normal_quantile (1 - alpha / 2))
                   (mde / std_error (py_int (of_int n * pct / 100))
                            (n - py_int (of_int n * pct / 100)))),
             py_int (of_int n * pct / 100), n - py_int (of_int n * pct / 100))"
proof (cases "py_int (of_int n * pct / 100) = 0")
  case True
  then show ?thesis
    using calculate_power_degenerate [of n pct mde alpha] by simp
next
  case False
  have "0 \<le> py_int (of_int n * pct / 100)" "py_int (of_int n * pct / 100) < n"
    using assms by (intro group_sizes_range; simp)+
  with False have pos: "0 < py_int (of_int n * pct / 100)" "0 < n - py_int (of_int n * pct / 100)"
    by simp_all
  have "calculate_power n pct mde alpha =
        Inr (Fin (power_curve (std_normal_quantile (1 - alpha / 2))
                   (mde / std_error (py_int (of_int n * pct / 100))
                            (n - py_int (of_int n * pct / 100)))),
             py_int (of_int n * pct / 100), n - py_int (of_int n * pct / 100))"
    using pos assms by (intro calculate_power_regular) simp_all
  with pos show ?thesis by simp
qed

lemma critical_value_nonneg:
  assumes "0 < alpha" "alpha < 1"
  shows "0 \<le> std_normal_quantile (1 - alpha / 2)"
  using assms by (intro quantile_nonneg) simp_all

lemma power_mono_in_total:
  assumes pct: "0 < pct" "pct < 100" and mde: "0 < mde" and alpha: "0 < alpha" "alpha < 1"
    and n: "1 \<le> n" "n \<le> n'"
  shows "\<exists>p p' a b a' b'.
    calculate_power n pct mde alpha = Inr (Fin p, a, b) \<and>
    calculate_power n' pct mde alpha = Inr (Fin p', a', b') \<and> p \<le> p'"
proof -
  define z where "z = std_normal_quantile (1 - alpha / 2)"
  define a where "a = py_int (of_int n * pct / 100)"
  define a' where "a' = py_int (of_int n' * pct / 100)"
  have z: "0 \<le> z"
    unfolding z_def using alpha by (rule critical_value_nonneg)
  have n': "1 \<le> n'"
    using n by simp
  have le: "a \<le> a'" "n - a \<le> n' - a'"
    unfolding a_def a'_def using pct n by (intro group_sizes_mono; simp)+
  from calculate_power_cases [OF pct n(1) alpha, of mde]
  consider (deg) "calculate_power n pct mde alpha = Inr (Fin 0, 0, n)"
    | (reg) "0 < a" "0 < n - a"
        "calculate_power n pct mde alpha = Inr (Fin (power_curve z (mde / std_error a (n - a))), a, n - a)"
    unfolding a_def z_def by blast
  then show ?thesis
  proof cases
    case deg
    from calculate_power_cases [OF pct n' alpha, of mde]
    have "\<exists>p' a' b'. calculate_power n' pct mde alpha = Inr (Fin p', a', b') \<and> 0 \<le> p'"
      using power_curve_pos [of z] unfolding z_def by (auto intro: less_imp_le)
    with deg show ?thesis by auto
  next
    case reg
    have pos': "0 < a'" "0 < n' - a'"
      using reg le by simp_all
    from calculate_power_cases [OF pct n' alpha, of mde] pos'
    have r': "calculate_power n' pct mde alpha
        = Inr (Fin (power_curve z (mde / std_error a' (n' - a'))), a', n' - a')"
      unfolding a'_def z_def by auto
    have se: "std_error a' (n' - a') \<le> std_error a (n - a)"
      using reg le by (intro std_error_antimono) simp_all
    have sp: "0 < std_error a' (n' - a')" "0 < std_error a (n - a)"
      using reg pos' by (simp_all add: std_error_pos)
    have "mde / std_error a (n - a) \<le> mde / std_error a' (n' - a')"
      using se sp mde by (simp add: frac_le)
    moreover have "0 \<le> mde / std_error a (n - a)"
      using sp mde by simp
    ultimately have "power_curve z (mde / std_error a (n - a))
        \<le> power_curve z (mde / std_error a' (n' - a'))"
      using z by (intro power_curve_mono)
    with reg r' show ?thesis by auto
  qed
qed

lemma power_mono_in_mde:
  assumes pct: "0 < pct" "pct < 100" and mde: "0 < mde" "mde \<le> mde'"
    and alpha: "0 < alpha" "alpha < 1" and n: "1 \<le> n"
  shows "\<exists>p p' a b.
    calculate_power n pct mde alpha = Inr (Fin p, a, b) \<and>
    calculate_power n pct mde' alpha = Inr (Fin p', a, b) \<and> p \<le> p'"
proof -
  define z where "z = std_normal_quantile (1 - alpha / 2)"
  define a where "a = py_int (of_int n * pct / 100)"
  have z: "0 \<le> z"
    unfolding z_def using alpha by (rule critical_value_nonneg)
  from calculate_power_cases [OF pct n alpha, of mde]
  consider (deg) "a = 0" "calculate_power n pct mde alpha = Inr (Fin 0, 0, n)"
    | (reg) "0 < a" "0 < n - a"
        "calculate_power n pct mde alpha = Inr (Fin (power_curve z (mde / std_error a (n - a))), a, n - a)"
    unfolding a_def z_def by blast
  then show ?thesis
  proof cases
    case deg
    from calculate_power_cases [OF pct n alpha, of mde'] deg(1)
    have "calculate_power n pct mde' alpha = Inr (Fin 0, 0, n)"
      unfolding a_def by auto
    with deg show ?thesis by auto
  next
    case reg
    from calculate_power_cases [OF pct n alpha, of mde'] reg(1)
    have r': "calculate_power n pct mde' alpha
        = Inr (Fin (power_curve z (mde' / std_error a (n - a))), a, n - a)"
      unfolding a_def z_def by auto
    have sp: "0 < std_error a (n - a)"
      using reg by (simp add: std_error_pos)
    have "mde / std_error a (n - a) \<le> mde' / std_error a (n - a)"
      using sp mde by (simp add: divide_right_mono)
    moreover have "0 \<le> mde / std_error a (n - a)"
      using sp mde by simp
    ultimately have "power_curve z (mde / std_error a (n - a))
        \<le> power_curve z (mde' / std_error a (n - a))"
      using z by (intro power_curve_mono)
    with reg r' show ?thesis by auto
  qed
qed

text \<open>
  Claim C8, monotonicity of the power: for a percentage in \<open>(0, 100)\<close>, \<open>mde > 0\<close> and
  alpha in \<open>(0, 1)\<close>, the power that \<^verbatim>\<open>calculate_power\<close> returns does not decrease when
  the total sample size grows over the positive integers, nor when \<open>mde\<close> grows.
\<close>

theorem power_monotone:
  assumes "0 < pct" "pct < 100" "0 < mde" "0 < alpha" "alpha < 1" "1 \<le> n"
  shows "(n \<le> n' \<longrightarrow>
      (\<exists>p p' a b a' b'.
        calculate_power n pct mde alpha = Inr (Fin p, a, b) \<and>
        calculate_power n' pct mde alpha = Inr (Fin p', a', b') \<and> p \<le> p')) \<and>
    (mde \<le> mde' \<longrightarrow>
      (\<exists>p p' a b.
        calculate_power n pct mde alpha = Inr (Fin p, a, b) \<and>
        calculate_power n pct mde' alpha = Inr (Fin p', a, b) \<and> p \<le> p'))"
  using assms power_mono_in_total [of pct mde alpha n n'] power_mono_in_mde [of pct mde mde' alpha n]
  by blast

text \<open>
  The monotonicity from \<^verbatim>\<open>n_total = 1000\<close> to 2000 and from \<^verbatim>\<open>mde = 0.02\<close> to 0.03, at
  50 percent and \<^verbatim>\<open>alpha = 0.05\<close>.
\<close>

theorem power_monotone_witness:
  "(\<exists>p p' a b a' b'.
      calculate_power 1000 50 (1 / 50) (1 / 20) = Inr (Fin p, a, b) \<and>
      calculate_power 2000 50 (1 / 50) (1 / 20) = Inr (Fin p', a', b') \<and> p \<le> p') \<and>
   (\<exists>p p' a b.
      calculate_power 1000 50 (1 / 50) (1 / 20) = Inr (Fin p, a, b) \<and>
      calculate_power 1000 50 (3 / 100) (1 / 20) = Inr (Fin p', a, b) \<and> p \<le> p')"
  using power_monotone [of 50 "1 / 50" "1 / 20" 1000 2000 "3 / 100"]
  by simp

section \<open>The sweep over the allocation\<close>

lemma treatment_percentages: "py_range 5 96 5 = [5, 10, 15, 20, 25, 30, 35, 40, 45, 50, 55, 60, 65, 70, 75, 80, 85, 90, 95]"
  by (simp add: py_range.simps)

lemma sweep_group_size:
  assumes "0 \<le> tp"
  shows "py_int (of_int 2000 * of_int tp / 100) = 20 * tp"
proof -
  have "real_of_int 2000 * of_int tp / 100 = of_int (20 * tp)"
    by simp
  moreover have "0 \<le> real_of_int (20 * tp)"
    using assms by simp
  ultimately show ?thesis
    by (simp only: py_int_def if_True floor_of_int)
qed

lemma calculate_mde_sweep_point:
  assumes "0 < tp" "tp < 100"
  shows "calculate_mde 2000 (of_int tp) (4 / 5) (1 / 20)
    = Inr (Fin ((std_normal_quantile (1 - 1 / 20 / 2) + std_normal_quantile (4 / 5))
                 * std_error (20 * tp) (2000 - 20 * tp)),
           20 * tp, 2000 - 20 * tp)"
proof (rule calculate_mde_regular)
  show "20 * tp = py_int (real_of_int 2000 * real_of_int tp / 100)"
    using assms by (simp only: sweep_group_size)
qed (use assms in simp_all)

lemma sweep_mde_rows:
  assumes "\<forall>tp \<in> set tps. 0 < tp \<and> tp < 100"
  shows "sweep_mde 2000 (4 / 5) (1 / 20) tps
    = Inr (map (\<lambda>tp. MdeRow tp
              (Fin ((std_normal_quantile (1 - 1 / 20 / 2) + std_normal_quantile (4 / 5))
                 * std_error (20 * tp) (2000 - 20 * tp) * 100))
              (20 * tp) (2000 - 20 * tp)) tps)"
  using assms by (induction tps) (simp_all add: calculate_mde_sweep_point)

lemma sweep_argmin:
  assumes "0 < z"
  shows "idxmin (map (\<lambda>tp. Fin (z * std_error (20 * tp) (2000 - 20 * tp) * 100))
      [5, 10, 15, 20, 25, 30, 35, 40, 45, 50, 55, 60, 65, 70, 75, 80, 85, 90, 95]) = Inr 9"
  using assms by (simp add: idxmin_def std_error_def)

lemma sweep_critical_sum_pos:
  "0 < std_normal_quantile (1 - 1 / 20 / 2) + std_normal_quantile (4 / 5)"
proof -
  have "0 < std_normal_quantile (1 - 1 / 20 / 2)"
    by (rule quantile_pos) simp_all
  moreover have "0 < std_normal_quantile (4 / 5)"
    by (rule quantile_pos) simp_all
  ultimately show ?thesis by simp
qed

lemma sweep_rows:
  "generate_treatment_comparison_data ''MDE''
     \<lparr>fp_n_total = Some 2000, fp_mde = None, fp_power = Some (4 / 5), fp_alpha = Some (1 / 20)\<rparr>
   = Inr (map (\<lambda>tp. MdeRow tp
              (Fin ((std_normal_quantile (1 - 1 / 20 / 2) + std_normal_quantile (4 / 5))
                 * std_error (20 * tp) (2000 - 20 * tp) * 100))
              (20 * tp) (2000 - 20 * tp))
          [5, 10, 15, 20, 25, 30, 35, 40, 45, 50, 55, 60, 65, 70, 75, 80, 85, 90, 95])"
proof -
  have "sweep_mde 2000 (4 / 5) (1 / 20)
      [5, 10, 15, 20, 25, 30, 35, 40, 45, 50, 55, 60, 65, 70, 75, 80, 85, 90, 95]
    = Inr (map (\<lambda>tp. MdeRow tp
              (Fin ((std_normal_quantile (1 - 1 / 20 / 2) + std_normal_quantile (4 / 5))
                 * std_error (20 * tp) (2000 - 20 * tp) * 100))
              (20 * tp) (2000 - 20 * tp))
          [5, 10, 15, 20, 25, 30, 35, 40, 45, 50, 55, 60, 65, 70, 75, 80, 85, 90, 95])"
    by (rule sweep_mde_rows) simp
  then show ?thesis
    unfolding generate_treatment_comparison_data_def Let_def treatment_percentages
    by (simp add: lookup_def)
qed

lemma sweep_rows_positive:
  assumes "0 < z"
  shows "list_all (\<lambda>r. \<exists>m. mde_pp r = Fin m \<and> 0 < m)
    (map (\<lambda>tp. MdeRow tp (Fin (z * std_error (20 * tp) (2000 - 20 * tp) * 100))
              (20 * tp) (2000 - 20 * tp))
       [5, 10, 15, 20, 25, 30, 35, 40, 45, 50, 55, 60, 65, 70, 75, 80, 85, 90, 95])"
  using assms by (simp add: std_error_pos)

lemma sweep_rows_optimum:
  assumes "0 < z"
  shows "opt_treatment
    (map (\<lambda>tp. MdeRow tp (Fin (z * std_error (20 * tp) (2000 - 20 * tp) * 100))
              (20 * tp) (2000 - 20 * tp))
       [5, 10, 15, 20, 25, 30, 35, 40, 45, 50, 55, 60, 65, 70, 75, 80, 85, 90, 95]) = Inr 50"
proof -
  have "idxmin (map (\<lambda>tp. Fin (z * std_error (20 * tp) (2000 - 20 * tp) * 100))
      [5, 10, 15, 20, 25, 30, 35, 40, 45, 50, 55, 60, 65, 70, 75, 80, 85, 90, 95]) = Inr 9"
    using assms by (rule sweep_argmin)
  then show ?thesis
    unfolding opt_treatment_def map_map comp_def row.sel by simp
qed

text \<open>
  Claim C6, the sweep grid: the MDE sweep at \<^verbatim>\<open>n_total = 2000\<close>, power 0.8 and
  \<^verbatim>\<open>alpha = 0.05\<close> returns 19 rows whose treatment percentages are 5, 10, ..., 95 in this
  order, each with a positive \<^verbatim>\<open>mde\<close>, and the optimal point that \<^verbatim>\<open>idxmin\<close> selects (the
  first smallest \<^verbatim>\<open>mde\<close>) has treatment percentage 50.
\<close>

theorem sweep_grid:
  "\<exists>rows.
     generate_treatment_comparison_data ''MDE''
       \<lparr>fp_n_total = Some 2000, fp_mde = None, fp_power = Some (4 / 5), fp_alpha = Some (1 / 20)\<rparr>
       = Inr rows \<and>
     length rows = 19 \<and>
     map treatment_pct rows
       = [5, 10, 15, 20, 25, 30, 35, 40, 45, 50, 55, 60, 65, 70, 75, 80, 85, 90, 95] \<and>
     list_all (\<lambda>r. \<exists>m. mde_pp r = Fin m \<and> 0 < m) rows \<and>
     opt_treatment rows = Inr 50"
proof (intro exI conjI)
  show "generate_treatment_comparison_data ''MDE''
       \<lparr>fp_n_total = Some 2000, fp_mde = None, fp_power = Some (4 / 5), fp_alpha = Some (1 / 20)\<rparr>
       = Inr (map (\<lambda>tp. MdeRow tp
              (Fin ((std_normal_quantile (1 - 1 / 20 / 2) + std_normal_quantile (4 / 5))
                 * std_error (20 * tp) (2000 - 20 * tp) * 100))
              (20 * tp) (2000 - 20 * tp))
          [5, 10, 15, 20, 25, 30, 35, 40, 45, 50, 55, 60, 65, 70, 75, 80, 85, 90, 95])"
    by (rule sweep_rows)
  show "length (map (\<lambda>tp. MdeRow tp
              (Fin ((std_normal_quantile (1 - 1 / 20 / 2) + std_normal_quantile (4 / 5))
                 * std_error (20 * tp) (2000 - 20 * tp) * 100))
              (20 * tp) (2000 - 20 * tp))
          [5, 10, 15, 20, 25, 30, 35, 40, 45, 50, 55, 60, 65, 70, 75, 80, 85, 90, 95]) = 19"
    by simp
  show "map treatment_pct (map (\<lambda>tp. MdeRow tp
              (Fin ((std_normal_quantile (1 - 1 / 20 / 2) + std_normal_quantile (4 / 5))
                 * std_error (20 * tp) (2000 - 20 * tp) * 100))
              (20 * tp) (2000 - 20 * tp))
          [5, 10, 15, 20, 25, 30, 35, 40, 45, 50, 55, 60, 65, 70, 75, 80, 85, 90, 95])
       = [5, 10, 15, 20, 25, 30, 35, 40, 45, 50, 55, 60, 65, 70, 75, 80, 85, 90, 95]"
    unfolding map_map comp_def row.sel by (simp only: map_ident)
  show "list_all (\<lambda>r. \<exists>m. mde_pp r = Fin m \<and> 0 < m) (map (\<lambda>tp. MdeRow tp
              (Fin ((std_normal_quantile (1 - 1 / 20 / 2) + std_normal_quantile (4 / 5))
                 * std_error (20 * tp) (2000 - 20 * tp) * 100))
              (20 * tp) (2000 - 20 * tp))
          [5, 10, 15, 20, 25, 30, 35, 40, 45, 50, 55, 60, 65, 70, 75, 80, 85, 90, 95])"
    by (rule sweep_rows_positive [OF sweep_critical_sum_pos])
  show "opt_treatment (map (\<lambda>tp. MdeRow tp
              (Fin ((std_normal_quantile (1 - 1 / 20 / 2) + std_normal_quantile (4 / 5))
                 * std_error (20 * tp) (2000 - 20 * tp) * 100))
              (20 * tp) (2000 - 20 * tp))
          [5, 10, 15, 20, 25, 30, 35, 40, 45, 50, 55, 60, 65, 70, 75, 80, 85, 90, 95]) = Inr 50"
    by (rule sweep_rows_optimum [OF sweep_critical_sum_pos])
qed

section \<open>The round trip from sample size to power\<close>

text \<open>
  The sample size rounds the two groups with \<^verbatim>\<open>round\<close>, the power truncates the treatment
  group with \<^verbatim>\<open>int\<close>. To evaluate both at a concrete design the critical value at
  \<open>19 / 20\<close> and two values of the distribution function are enclosed between rationals.
\<close>

subsection \<open>Partial sums of the alternating series enclose the integral\<close>













subsection \<open>Partial sums enclose the exponential\<close>





subsection \<open>Bounds of the half mass from the Mills ratio\<close>









subsection \<open>A critical value, rounding and two values of the distribution function\<close>








subsection \<open>The drift between \<^verbatim>\<open>round\<close> and \<^verbatim>\<open>int\<close>\<close>




end
